theory Spec2Isabelle
  imports Complex_Main "HOL-Library.Log_Nat"
begin

section \<open>Data model\<close>

text \<open>
  The processing engine of \<^verbatim>\<open>src/lib/audioWorker.ts\<close> (class \<^verbatim>\<open>AudioProcessor\<close>).
  The engine is modelled twice.  In the first model a \<^verbatim>\<open>Float32Array\<close> is a list of
  reals and arithmetic is exact.  In the second, given below for \<^verbatim>\<open>addEcho\<close> and the NLMS
  stage, arithmetic is that of IEEE 754: binary64 operations, rounding to binary32 on every
  store into a \<^verbatim>\<open>Float32Array\<close>, infinities and NaN.  A store at an index outside the array is dropped by
  JavaScript; \<open>xs[i := v]\<close> does the same.  A load outside the array yields
  \<^verbatim>\<open>undefined\<close>, which arithmetic turns into NaN.  Two loads can leave their array:
  \<^verbatim>\<open>input[0]\<close> of the emphasis filters on an empty input, whose value is then stored
  nowhere, and the delayed tap of \<^verbatim>\<open>addEcho\<close> under a negative delay, modelled by
  \<open>None\<close>.  The metrics read \<^verbatim>\<open>processed[j]\<close> for \<open>j\<close> below the length of
  \<^verbatim>\<open>original\<close>; both call sites pass signals of equal length.
\<close>

type_synonym signal = "real list"

record metrics_record =
  erle :: real
  snr :: real
  rea :: real
  latency :: real
  convergence :: real

record processor =
  echoDelay :: real
  metrics :: metrics_record

definition kalmanGain :: real where "kalmanGain = 0.05"
definition nlmsStepSize :: real where "nlmsStepSize = 0.8"
definition filterLength :: nat where "filterLength = 1024"
definition echoIntensity :: real where "echoIntensity = 50"
definition overlapFactor :: nat where "overlapFactor = 4"

definition initialMetrics :: metrics_record where
  "initialMetrics = \<lparr>erle = 0, snr = 0, rea = 0, latency = 0, convergence = 0\<rparr>"

definition newProcessor :: processor where
  "newProcessor = \<lparr>echoDelay = 100, metrics = initialMetrics\<rparr>"

definition setParameters :: "real option \<Rightarrow> processor \<Rightarrow> processor" where
  "setParameters params p =
     (case params of None \<Rightarrow> p | Some d \<Rightarrow> p\<lparr>echoDelay := d\<rparr>)"

definition getMetrics :: "processor \<Rightarrow> metrics_record" where
  "getMetrics p = metrics p"

text \<open>
  \<^verbatim>\<open>performance.now()\<close> is an input of the model: \<open>now k\<close> is the value of the
  \<open>k\<close>-th reading taken during one top-level call.
\<close>

type_synonym clock = "nat \<Rightarrow> real"

section \<open>Loops\<close>

text \<open>
  The loop shape
  \<^verbatim>\<open>for (i = 0; i < n; i += chunkSize) { end = min(i + chunkSize, n); for (j = i; j < end; j++) body }\<close>
  shared by the metrics, the echo synthesizer and the Kalman filter.  Every call site
  passes a positive literal chunk size.
\<close>

function chunked_for :: "nat \<Rightarrow> nat \<Rightarrow> nat \<Rightarrow> (nat \<Rightarrow> 's \<Rightarrow> 's) \<Rightarrow> 's \<Rightarrow> 's" where
  "chunked_for chunkSize n i body s =
     (if i < n \<and> 0 < chunkSize
      then chunked_for chunkSize n (i + chunkSize) body
             (fold body [i..<min (i + chunkSize) n] s)
      else s)"
  by pat_completeness auto
termination
  by (relation "measure (\<lambda>(chunkSize, n, i, body, s). n - i)") auto

declare chunked_for.simps [simp del]

section \<open>Metrics engine\<close>

definition calculateERLE :: "signal \<Rightarrow> signal \<Rightarrow> real" where
  "calculateERLE original processed =
     (let (sumOriginalSquared, sumProcessedSquared) =
            chunked_for 256 (length original) 0
              (\<lambda>j (so, sp).
                 (let origVal = original ! j; procVal = processed ! j
                  in (so + origVal * origVal, sp + procVal * procVal)))
              (0, 0);
          noiseFloor = 1 / 10 ^ 12
      in 10 * log 10 ((sumOriginalSquared + noiseFloor) / (sumProcessedSquared + noiseFloor)))"

function snr_frames :: "signal \<Rightarrow> nat \<Rightarrow> real \<times> real \<Rightarrow> real \<times> real" where
  "snr_frames sig i (signalPower, noisePower) =
     (if i < length sig
      then (let framePower =
                  fold (\<lambda>j fp. fp + sig ! j * sig ! j) [i..<min (i + 128) (length sig)] 0
            in snr_frames sig (i + 128)
                 (if framePower > 0.005
                  then (signalPower + framePower, noisePower)
                  else (signalPower, noisePower + framePower)))
      else (signalPower, noisePower))"
  by pat_completeness auto
termination
  by (relation "measure (\<lambda>(sig, i, acc). length sig - i)") auto

declare snr_frames.simps [simp del]

definition calculateSNR :: "signal \<Rightarrow> real" where
  "calculateSNR sig =
     (let (signalPower, noisePower) = snr_frames sig 0 (0, 0)
      in 10 * log 10 ((signalPower + 1 / 10 ^ 10) / (noisePower + 1 / 10 ^ 10)))"

definition calculateREA :: "signal \<Rightarrow> signal \<Rightarrow> real" where
  "calculateREA original processed =
     (let (sumProcessedSquared, sumOriginalSquared) =
            chunked_for 256 (length original) 0
              (\<lambda>j (sp, so).
                 (let origVal = original ! j; procVal = processed ! j
                  in (sp + procVal * procVal, so + origVal * origVal)))
              (0, 0);
          noiseFloor = 1 / 10 ^ 12
      in 20 * log 10 ((sumOriginalSquared + noiseFloor) / (sumProcessedSquared + noiseFloor)))"

section \<open>Echo synthesizer\<close>

text \<open>A load from a \<^verbatim>\<open>Float32Array\<close> at a computed index; \<open>None\<close> is \<^verbatim>\<open>undefined\<close>.\<close>

definition readF32 :: "signal \<Rightarrow> int \<Rightarrow> real option" where
  "readF32 a i = (if 0 \<le> i \<and> i < int (length a) then Some (a ! nat i) else None)"

text \<open>One pass of the inner loop body of \<^verbatim>\<open>addEcho\<close>; in the output, \<open>None\<close> is NaN.\<close>

definition addEcho_body ::
    "signal \<Rightarrow> int \<Rightarrow> real \<Rightarrow> nat \<Rightarrow> real option list \<Rightarrow> real option list" where
  "addEcho_body audioData delayInSamples intensity j out =
     (let out1 = out[j := Some (audioData ! j)]
      in if delayInSamples \<le> int j
         then out1[j := (case (out1 ! j, readF32 audioData (int j - delayInSamples)) of
                           (Some a, Some b) \<Rightarrow> Some (a + b * intensity)
                         | _ \<Rightarrow> None)]
         else out1)"

definition addEcho :: "clock \<Rightarrow> signal \<Rightarrow> processor \<Rightarrow> real option list \<times> processor" where
  "addEcho now audioData p =
     (let startTime = now 0;
          delayInSamples = \<lfloor>echoDelay p * 44.1\<rfloor>;
          intensity = echoIntensity / 100;
          out = chunked_for 256 (length audioData) 0
                  (addEcho_body audioData delayInSamples intensity)
                  (replicate (length audioData) (Some 0))
      in (out, p\<lparr>metrics := (metrics p)\<lparr>latency := now 1 - startTime\<rparr>\<rparr>))"

section \<open>Emphasis filter pair\<close>

text \<open>
  On an empty input the first store \<^verbatim>\<open>output[0] = input[0]\<close> falls outside the
  (empty) output array and is dropped.
\<close>

definition applyPreProcessing :: "signal \<Rightarrow> signal" where
  "applyPreProcessing input =
     (let out0 = replicate (length input) 0;
          alpha = 0.95;
          out1 = (if input = [] then out0 else out0[0 := input ! 0])
      in fold (\<lambda>i out. out[i := input ! i - alpha * input ! (i - 1)]) [1..<length input] out1)"

definition applyPostProcessing :: "signal \<Rightarrow> signal" where
  "applyPostProcessing input =
     (let out0 = replicate (length input) 0;
          alpha = 0.95;
          out1 = (if input = [] then out0 else out0[0 := input ! 0])
      in fold (\<lambda>i out. out[i := input ! i + alpha * out ! (i - 1)]) [1..<length input] out1)"

section \<open>Kalman denoiser\<close>

record kalman_state =
  estimate :: real
  errorCovariance :: real
  kalmanOutput :: signal

definition processNoise :: real where "processNoise = 0.00001"

definition kalman_init :: "signal \<Rightarrow> kalman_state" where
  "kalman_init input =
     \<lparr>estimate = 0, errorCovariance = 0.1, kalmanOutput = replicate (length input) 0\<rparr>"

definition kalman_body :: "signal \<Rightarrow> nat \<Rightarrow> kalman_state \<Rightarrow> kalman_state" where
  "kalman_body input j st =
     (let prediction = estimate st;
          errorCovariance1 = errorCovariance st + processNoise;
          gain = errorCovariance1 / (errorCovariance1 + kalmanGain);
          estimate1 = prediction + gain * (input ! j - prediction);
          errorCovariance2 = (1 - gain) * errorCovariance1
      in \<lparr>estimate = estimate1, errorCovariance = errorCovariance2,
          kalmanOutput = (kalmanOutput st)[j := estimate1]\<rparr>)"

definition kalman_run :: "signal \<Rightarrow> kalman_state" where
  "kalman_run input = chunked_for 256 (length input) 0 (kalman_body input) (kalman_init input)"

definition applyKalmanFilter :: "signal \<Rightarrow> signal" where
  "applyKalmanFilter input = kalmanOutput (kalman_run input)"

section \<open>NLMS echo canceller\<close>

record nlms_state =
  weights :: "real list"
  buffer :: "real list"
  nlmsOutput :: signal
  converged :: bool

definition convergenceThreshold :: real where "convergenceThreshold = 0.0005"
definition stabilityFactor :: real where "stabilityFactor = 1 / 10 ^ 8"
definition nlmsChunkSize :: nat where "nlmsChunkSize = 128"
definition overlapSize :: nat where "overlapSize = nlmsChunkSize div overlapFactor"

text \<open>\<^verbatim>\<open>buffer.copyWithin(1, 0)\<close>: every element moves one place up, the last one is lost.\<close>

definition copyWithin_1_0 :: "'a list \<Rightarrow> 'a list" where
  "copyWithin_1_0 b = (case b of [] \<Rightarrow> [] | x # xs \<Rightarrow> x # butlast (x # xs))"

text \<open>The prediction \<^verbatim>\<open>y\<close>, the input power and the weight update of one sample.\<close>

definition filterPrediction :: "real list \<Rightarrow> real list \<Rightarrow> real" where
  "filterPrediction w b = fold (\<lambda>k y. y + w ! k * b ! k) [0..<filterLength] 0"

definition powerSpectrum :: "real list \<Rightarrow> real" where
  "powerSpectrum b = fold (\<lambda>k p. p + b ! k * b ! k) [0..<filterLength] 0"

definition updateWeights :: "real \<Rightarrow> real \<Rightarrow> real list \<Rightarrow> real list \<Rightarrow> real list" where
  "updateWeights normalizedStepSize err b w =
     fold (\<lambda>k w. w[k := w ! k + normalizedStepSize * err * b ! k]) [0..<filterLength] w"

text \<open>
  The body of the inner loop \<^verbatim>\<open>for (j = 0; j < chunkSize; j++)\<close>, for the chunk that
  starts at input index \<open>i\<close>.
\<close>

definition nlms_sample :: "real list \<Rightarrow> nat \<Rightarrow> nat \<Rightarrow> nlms_state \<Rightarrow> nlms_state" where
  "nlms_sample processingBuffer i j st =
     (let buffer1 = (copyWithin_1_0 (buffer st))[0 := processingBuffer ! j];
          y = filterPrediction (weights st) buffer1;
          err = processingBuffer ! j - y;
          out1 = (nlmsOutput st)[i + j := y];
          normalizedStepSize = nlmsStepSize / (powerSpectrum buffer1 + stabilityFactor);
          weights1 = updateWeights normalizedStepSize err buffer1 (weights st);
          converged1 = (if \<not> converged st \<and> \<bar>err\<bar> < convergenceThreshold
                        then True else converged st)
      in \<lparr>weights = weights1, buffer = buffer1, nlmsOutput = out1, converged = converged1\<rparr>)"

text \<open>
  \<^verbatim>\<open>processingBuffer.fill(0)\<close> followed by the copy of \<^verbatim>\<open>input[i .. end)\<close> to its
  front.
\<close>

definition fillProcessingBuffer :: "signal \<Rightarrow> nat \<Rightarrow> nat \<Rightarrow> real list" where
  "fillProcessingBuffer input i end =
     fold (\<lambda>j pb. pb[j := input ! (i + j)]) [0..<end - i]
       (replicate (nlmsChunkSize + filterLength) 0)"

text \<open>One pass of the outer loop: the chunk that starts at input index \<open>i\<close>.\<close>

definition nlms_chunk :: "signal \<Rightarrow> nat \<Rightarrow> nlms_state \<Rightarrow> nlms_state" where
  "nlms_chunk input i st =
     (let end = min (i + nlmsChunkSize) (length input);
          processingBuffer = fillProcessingBuffer input i end
      in fold (nlms_sample processingBuffer i) [0..<nlmsChunkSize] st)"

text \<open>The outer loop \<^verbatim>\<open>for (i = 0; i < input.length; i += chunkSize - overlapSize)\<close>.\<close>

function nlms_chunks :: "signal \<Rightarrow> nat \<Rightarrow> nlms_state \<Rightarrow> nlms_state" where
  "nlms_chunks input i st =
     (if i < length input
      then nlms_chunks input (i + (nlmsChunkSize - overlapSize)) (nlms_chunk input i st)
      else st)"
  by pat_completeness auto
termination
  by (relation "measure (\<lambda>(input, i, st). length input - i)")
     (auto simp: nlmsChunkSize_def overlapSize_def overlapFactor_def)

declare nlms_chunks.simps [simp del]

definition nlms_init :: "signal \<Rightarrow> nlms_state" where
  "nlms_init input =
     \<lparr>weights = replicate filterLength 0, buffer = replicate filterLength 0,
      nlmsOutput = replicate (length input) 0, converged = False\<rparr>"

definition nlms_run :: "signal \<Rightarrow> nlms_state" where
  "nlms_run input = nlms_chunks input 0 (nlms_init input)"

text \<open>
  The convergence time is one clock reading minus the start time, whether it is taken
  inside the loop (first sample below the threshold) or after it.
\<close>

definition applyNLMSFilter :: "clock \<Rightarrow> signal \<Rightarrow> metrics_record \<Rightarrow> signal \<times> metrics_record" where
  "applyNLMSFilter now input m =
     (let startTime = now 0;
          st = nlms_run input
      in (nlmsOutput st, m\<lparr>convergence := now 1 - startTime\<rparr>))"

section \<open>Top-level operations\<close>

definition removeEcho :: "clock \<Rightarrow> signal \<Rightarrow> processor \<Rightarrow> signal \<times> processor" where
  "removeEcho now audioData p =
     (let startTime = now 0;
          preProcessed = applyPreProcessing audioData;
          (processed, m1) = applyNLMSFilter (\<lambda>k. now (k + 1)) preProcessed (metrics p);
          postProcessed = applyPostProcessing processed;
          erle1 = calculateERLE audioData postProcessed;
          rea1 = calculateREA audioData postProcessed
      in (postProcessed,
          p\<lparr>metrics := m1\<lparr>erle := erle1, rea := rea1, latency := now 3 - startTime\<rparr>\<rparr>))"

definition processNoiseAndEcho :: "clock \<Rightarrow> signal \<Rightarrow> processor \<Rightarrow> signal \<times> processor" where
  "processNoiseAndEcho now audioData p =
     (let startTime = now 0;
          preProcessed = applyPreProcessing audioData;
          denoised = applyKalmanFilter preProcessed;
          (processed, m1) = applyNLMSFilter (\<lambda>k. now (k + 1)) denoised (metrics p);
          postProcessed = applyPostProcessing processed;
          snr1 = calculateSNR audioData;
          erle1 = calculateERLE audioData postProcessed;
          rea1 = calculateREA audioData postProcessed
      in (postProcessed,
          p\<lparr>metrics := m1\<lparr>snr := snr1, erle := erle1, rea := rea1,
                           latency := now 3 - startTime\<rparr>\<rparr>))"

section \<open>The per-sample recursion of the specification\<close>

text \<open>
  The recursion as the specification words it, on the pair (weights, buffer), for one
  input sample \<open>x\<close>: (1) shift the buffer right by one place, insert \<open>x\<close> at place 0 and
  drop the oldest tap; (2) \<open>y = \<Sum>k. weights[k] * buffer[k]\<close>; (3) \<open>error = x - y\<close>;
  (4) \<open>power = \<Sum>k. buffer[k]\<^sup>2\<close>; (5) \<open>stepSize = nlmsStepSize / (power + stabilityFactor)\<close>;
  (6) \<open>weights[k] += stepSize * error * buffer[k]\<close> for all \<open>k\<close>.  Step (7) only decides
  when the clock is read.  The step returns the prediction and the error with the next
  pair; \<open>spec_recursion\<close> applies it exactly once to each sample, in order.
\<close>

definition spec_step ::
    "real \<Rightarrow> real list \<times> real list \<Rightarrow> (real \<times> real) \<times> (real list \<times> real list)" where
  "spec_step x wb =
     (let (w, b) = wb;
          b1 = x # butlast b;
          y = (\<Sum>k\<leftarrow>[0..<filterLength]. w ! k * b1 ! k);
          err = x - y;
          power = (\<Sum>k\<leftarrow>[0..<filterLength]. b1 ! k * b1 ! k);
          stepSize = nlmsStepSize / (power + stabilityFactor);
          w1 = map (\<lambda>k. w ! k + stepSize * err * b1 ! k) [0..<filterLength]
      in ((y, err), (w1, b1)))"

fun spec_recursion :: "real list \<Rightarrow> real list \<times> real list \<Rightarrow> (real \<times> real) list" where
  "spec_recursion [] wb = []"
| "spec_recursion (x # xs) wb = fst (spec_step x wb) # spec_recursion xs (snd (spec_step x wb))"

fun spec_state :: "real list \<Rightarrow> real list \<times> real list \<Rightarrow> real list \<times> real list" where
  "spec_state [] wb = wb"
| "spec_state (x # xs) wb = spec_state xs (snd (spec_step x wb))"

definition spec_init :: "real list \<times> real list" where
  "spec_init = (replicate filterLength 0, replicate filterLength 0)"



text \<open>
  The samples one chunk feeds to the inner loop: the \<open>nlmsChunkSize\<close> input samples from
  index \<open>i\<close> on, with 0 for every index past the end of the input.
\<close>

definition chunk_samples :: "signal \<Rightarrow> nat \<Rightarrow> real list" where
  "chunk_samples input i =
     map (\<lambda>j. if i + j < length input then input ! (i + j) else 0) [0..<nlmsChunkSize]"





section \<open>IEEE 754 arithmetic\<close>

text \<open>
  A JavaScript number or an element of a \<^verbatim>\<open>Float32Array\<close>: a finite value, an infinity
  or NaN.  The sign of a zero is not kept: it can only be observed by dividing by the
  zero, and no division of the modelled code has a zero divisor (\<^verbatim>\<open>50 / 100\<close>, and the
  step denominator, which is positive or NaN).
\<close>

datatype ieee = Fin real | PInf | NInf | NaN

text \<open>
  Rounding to nearest, ties to even, to a binary format of precision \<open>p\<close> whose least
  subnormal is \<open>2 ^ qmin\<close> and whose largest exponent is \<open>emax\<close>.  \<open>binexp x\<close> is the
  exponent \<open>e\<close> with \<open>2 ^ e \<le> x < 2 ^ (e + 1)\<close> of a positive \<open>x\<close>.
\<close>

definition pow2 :: "int \<Rightarrow> real" where
  "pow2 e = (if 0 \<le> e then 2 ^ nat e else 1 / 2 ^ nat (- e))"

definition binexp :: "real \<Rightarrow> int" where
  "binexp x = (if 1 \<le> x then bitlen \<lfloor>x\<rfloor> - 1 else - bitlen (\<lceil>1 / x\<rceil> - 1))"

definition round_even :: "real \<Rightarrow> int" where
  "round_even r =
     (let f = \<lfloor>r\<rfloor>; d = r - of_int f
      in if d < 1 / 2 then f else if 1 / 2 < d then f + 1 else if even f then f else f + 1)"

definition rnd :: "nat \<Rightarrow> int \<Rightarrow> int \<Rightarrow> real \<Rightarrow> ieee" where
  "rnd p qmin emax x =
     (if x = 0 then Fin 0
      else let q = pow2 (max (binexp \<bar>x\<bar> - (int p - 1)) qmin);
               y = of_int (round_even (x / q)) * q
           in if pow2 (emax + 1) \<le> \<bar>y\<bar> then (if 0 < y then PInf else NInf) else Fin y)"

definition rnd64 :: "real \<Rightarrow> ieee" where "rnd64 = rnd 53 (- 1074) 1023"
definition rnd32 :: "real \<Rightarrow> ieee" where "rnd32 = rnd 24 (- 149) 127"

text \<open>
  A store into a \<^verbatim>\<open>Float32Array\<close> rounds to binary32; the arithmetic of numbers is
  that of binary64, with the special values of IEEE 754.
\<close>

definition storeF32 :: "ieee \<Rightarrow> ieee" where
  "storeF32 v = (case v of Fin r \<Rightarrow> rnd32 r | _ \<Rightarrow> v)"

definition fneg :: "ieee \<Rightarrow> ieee" where
  "fneg v = (case v of Fin r \<Rightarrow> Fin (- r) | PInf \<Rightarrow> NInf | NInf \<Rightarrow> PInf | NaN \<Rightarrow> NaN)"

definition fadd :: "ieee \<Rightarrow> ieee \<Rightarrow> ieee" where
  "fadd a b =
     (case (a, b) of
        (NaN, _) \<Rightarrow> NaN
      | (_, NaN) \<Rightarrow> NaN
      | (PInf, NInf) \<Rightarrow> NaN
      | (NInf, PInf) \<Rightarrow> NaN
      | (PInf, _) \<Rightarrow> PInf
      | (_, PInf) \<Rightarrow> PInf
      | (NInf, _) \<Rightarrow> NInf
      | (_, NInf) \<Rightarrow> NInf
      | (Fin x, Fin y) \<Rightarrow> rnd64 (x + y))"

definition fsub :: "ieee \<Rightarrow> ieee \<Rightarrow> ieee" where
  "fsub a b = fadd a (fneg b)"

definition fsgn :: "ieee \<Rightarrow> int" where
  "fsgn v = (case v of Fin r \<Rightarrow> (if r < 0 then - 1 else if r = 0 then 0 else 1)
                     | PInf \<Rightarrow> 1 | NInf \<Rightarrow> - 1 | NaN \<Rightarrow> 0)"

definition fmul :: "ieee \<Rightarrow> ieee \<Rightarrow> ieee" where
  "fmul a b =
     (case (a, b) of
        (NaN, _) \<Rightarrow> NaN
      | (_, NaN) \<Rightarrow> NaN
      | (Fin x, Fin y) \<Rightarrow> rnd64 (x * y)
      | _ \<Rightarrow> (if fsgn a * fsgn b = 0 then NaN
              else if 0 < fsgn a * fsgn b then PInf else NInf))"

definition fdiv :: "ieee \<Rightarrow> ieee \<Rightarrow> ieee" where
  "fdiv a b =
     (case (a, b) of
        (NaN, _) \<Rightarrow> NaN
      | (_, NaN) \<Rightarrow> NaN
      | (Fin x, Fin y) \<Rightarrow>
          (if y = 0 then (if x = 0 then NaN else if 0 < x then PInf else NInf)
           else rnd64 (x / y))
      | (Fin x, _) \<Rightarrow> Fin 0
      | (_, Fin y) \<Rightarrow> (if (fsgn a < 0) = (y < 0) then PInf else NInf)
      | _ \<Rightarrow> NaN)"


definition flt :: "ieee \<Rightarrow> ieee \<Rightarrow> bool" where
  "flt a b =
     (case (a, b) of
        (NaN, _) \<Rightarrow> False
      | (_, NaN) \<Rightarrow> False
      | (Fin x, Fin y) \<Rightarrow> x < y
      | (NInf, NInf) \<Rightarrow> False
      | (NInf, _) \<Rightarrow> True
      | (PInf, _) \<Rightarrow> False
      | (_, PInf) \<Rightarrow> True
      | (_, NInf) \<Rightarrow> False)"

definition fle :: "ieee \<Rightarrow> ieee \<Rightarrow> bool" where
  "fle a b = (a \<noteq> NaN \<and> b \<noteq> NaN \<and> \<not> flt b a)"

definition ffloor :: "ieee \<Rightarrow> ieee" where
  "ffloor v = (case v of Fin r \<Rightarrow> Fin (of_int \<lfloor>r\<rfloor>) | _ \<Rightarrow> v)"

section \<open>Echo synthesizer and NLMS stage under IEEE arithmetic\<close>

text \<open>
  \<^verbatim>\<open>addEcho\<close> under IEEE arithmetic: the samples it returns, from the field
  \<^verbatim>\<open>this.echoDelay\<close> (a finite number) and the input.  A signal is the content of
  a \<^verbatim>\<open>Float32Array\<close>, so copying one of its elements to another \<^verbatim>\<open>Float32Array\<close> is
  exact; a load at an index that is not an index of the array is \<^verbatim>\<open>undefined\<close>, NaN in
  arithmetic.
\<close>

definition readF32_ieee :: "ieee list \<Rightarrow> ieee \<Rightarrow> ieee" where
  "readF32_ieee a idx =
     (case idx of
        Fin r \<Rightarrow> (if r = of_int \<lfloor>r\<rfloor> \<and> 0 \<le> r \<and> r < real (length a)
                  then a ! nat \<lfloor>r\<rfloor> else NaN)
      | _ \<Rightarrow> NaN)"

definition addEcho_body_ieee ::
    "ieee list \<Rightarrow> ieee \<Rightarrow> ieee \<Rightarrow> nat \<Rightarrow> ieee list \<Rightarrow> ieee list" where
  "addEcho_body_ieee audioData delayInSamples intensity j out =
     (let out1 = out[j := audioData ! j]
      in if fle delayInSamples (Fin (real j))
         then out1[j := storeF32
                (fadd (out1 ! j)
                   (fmul (readF32_ieee audioData (fsub (Fin (real j)) delayInSamples))
                      intensity))]
         else out1)"

definition delayInSamples_ieee :: "real \<Rightarrow> ieee" where
  "delayInSamples_ieee echoDelayMs = ffloor (fmul (Fin echoDelayMs) (rnd64 44.1))"

definition addEcho_ieee :: "real \<Rightarrow> ieee list \<Rightarrow> ieee list" where
  "addEcho_ieee echoDelayMs audioData =
     (let delayInSamples = delayInSamples_ieee echoDelayMs;
          intensity = fdiv (Fin echoIntensity) (Fin 100)
      in chunked_for 256 (length audioData) 0
           (addEcho_body_ieee audioData delayInSamples intensity)
           (replicate (length audioData) (Fin 0)))"


















section \<open>Loop lemmas\<close>

lemma chunked_for_fold:
  "0 < c \<Longrightarrow> chunked_for c n i body s = fold body [i..<n] s"
proof (induction c n i body s rule: chunked_for.induct)
  case (1 c n i body s)
  show ?case
  proof (cases "i < n")
    case False
    then show ?thesis by (simp add: chunked_for.simps)
  next
    case True
    show ?thesis
    proof (cases "i + c \<le> n")
      case le: True
      have "[i..<n] = [i..<i + c] @ [i + c..<n]"
        using le upt_add_eq_append [of i "i + c" "n - (i + c)"] by simp
      then show ?thesis
        using True le 1 by (subst chunked_for.simps) (simp add: min_def)
    next
      case gt: False
      then show ?thesis
        using True 1 by (subst chunked_for.simps) (simp add: min_def)
    qed
  qed
qed

lemma store_at_drop:
  "m < length out \<Longrightarrow> length pre = m \<Longrightarrow>
   (pre @ drop m out)[m := v] = (pre @ [v]) @ drop (Suc m) out"
  by (simp add: list_update_append upd_conv_take_nth_drop drop_Suc flip: drop_drop tl_drop)

lemma fold_store_upt:
  "m \<le> length out \<Longrightarrow>
   fold (\<lambda>j out. out[j := f j]) [0..<m] out = map f [0..<m] @ drop m out"
proof (induction m)
  case 0
  then show ?case by simp
next
  case (Suc m)
  then have "fold (\<lambda>j out. out[j := f j]) [0..<Suc m] out = (map f [0..<m] @ drop m out)[m := f m]"
    by simp
  also have "\<dots> = (map f [0..<m] @ [f m]) @ drop (Suc m) out"
    using Suc.prems by (intro store_at_drop) simp_all
  finally show ?case by simp
qed

section \<open>Metrics: ERLE and REA\<close>

lemma energy_sums:
  "chunked_for 256 n 0
     (\<lambda>j (so, sp). (let origVal = original ! j; procVal = processed ! j
                     in (so + origVal * origVal, sp + procVal * procVal))) (0::real, 0::real)
   = ((\<Sum>j<n. original ! j * original ! j), (\<Sum>j<n. processed ! j * processed ! j))"
proof -
  have "fold (\<lambda>j (so, sp). (let origVal = original ! j; procVal = processed ! j
                     in (so + origVal * origVal, sp + procVal * procVal))) [0..<n] (0::real, 0::real)
        = ((\<Sum>j<n. original ! j * original ! j), (\<Sum>j<n. processed ! j * processed ! j))"
    by (induction n) (simp_all add: Let_def)
  then show ?thesis by (simp add: chunked_for_fold)
qed

lemma calculateERLE_eq:
  "calculateERLE original processed =
     10 * log 10 (((\<Sum>j<length original. original ! j * original ! j) + 1 / 10 ^ 12) /
                  ((\<Sum>j<length original. processed ! j * processed ! j) + 1 / 10 ^ 12))"
  unfolding calculateERLE_def energy_sums by (simp add: Let_def)

lemma energy_sums_swapped:
  "chunked_for 256 n 0
     (\<lambda>j (sp, so). (let origVal = original ! j; procVal = processed ! j
                     in (sp + procVal * procVal, so + origVal * origVal))) (0::real, 0::real)
   = ((\<Sum>j<n. processed ! j * processed ! j), (\<Sum>j<n. original ! j * original ! j))"
proof -
  have "fold (\<lambda>j (sp, so). (let origVal = original ! j; procVal = processed ! j
                     in (sp + procVal * procVal, so + origVal * origVal))) [0..<n] (0::real, 0::real)
        = ((\<Sum>j<n. processed ! j * processed ! j), (\<Sum>j<n. original ! j * original ! j))"
    by (induction n) (simp_all add: Let_def)
  then show ?thesis by (simp add: chunked_for_fold)
qed

lemma calculateREA_eq:
  "calculateREA original processed =
     20 * log 10 (((\<Sum>j<length original. original ! j * original ! j) + 1 / 10 ^ 12) /
                  ((\<Sum>j<length original. processed ! j * processed ! j) + 1 / 10 ^ 12))"
  unfolding calculateREA_def energy_sums_swapped by (simp add: Let_def)

lemma calculateREA_twice_ERLE:
  "calculateREA original processed = 2 * calculateERLE original processed"
  by (simp add: calculateREA_eq calculateERLE_eq)

text \<open>
  Claim C8.  \<^verbatim>\<open>calculateREA\<close> accumulates the same two energies as
  \<^verbatim>\<open>calculateERLE\<close> and reports the same guarded ratio at \<open>20 * log10\<close> instead of
  \<open>10 * log10\<close>; so, in exact arithmetic, the \<open>rea\<close> field is twice the \<open>erle\<close> field
  after every \<^verbatim>\<open>removeEcho\<close> and every \<^verbatim>\<open>processNoiseAndEcho\<close>, for every input
  signal, clock and prior processor state.
\<close>

theorem rea_is_twice_erle:
  "calculateREA original processed = 2 * calculateERLE original processed \<and>
   rea (metrics (snd (removeEcho now audioData p)))
     = 2 * erle (metrics (snd (removeEcho now audioData p))) \<and>
   rea (metrics (snd (processNoiseAndEcho now audioData p)))
     = 2 * erle (metrics (snd (processNoiseAndEcho now audioData p)))"
  by (simp add: removeEcho_def processNoiseAndEcho_def Let_def split_beta
      calculateREA_twice_ERLE)

section \<open>Echo synthesizer\<close>

lemma addEcho_body_store:
  "j < length out \<Longrightarrow> length out = length a \<Longrightarrow> 0 \<le> d \<Longrightarrow>
   addEcho_body a d c j out =
     out[j := Some (if int j < d then a ! j else a ! j + a ! (j - nat d) * c)]"
  by (auto simp: addEcho_body_def Let_def readF32_def nat_diff_distrib' split: option.splits)

lemma addEcho_fold:
  assumes "0 \<le> d"
  shows "m \<le> length a \<Longrightarrow> length out = length a \<Longrightarrow>
     fold (addEcho_body a d c) [0..<m] out =
     map (\<lambda>j. Some (if int j < d then a ! j else a ! j + a ! (j - nat d) * c)) [0..<m] @ drop m out"
proof (induction m)
  case 0
  then show ?case by simp
next
  case (Suc m)
  let ?f = "\<lambda>j. Some (if int j < d then a ! j else a ! j + a ! (j - nat d) * c)"
  have len: "length (map ?f [0..<m] @ drop m out) = length a" using Suc.prems by simp
  have "fold (addEcho_body a d c) [0..<Suc m] out
        = addEcho_body a d c m (map ?f [0..<m] @ drop m out)"
    using Suc by simp
  also have "\<dots> = (map ?f [0..<m] @ drop m out)[m := ?f m]"
    using Suc.prems assms len by (subst addEcho_body_store) simp_all
  also have "\<dots> = (map ?f [0..<m] @ [?f m]) @ drop (Suc m) out"
    using Suc.prems by (intro store_at_drop) simp_all
  finally show ?case by simp
qed

lemma addEcho_output:
  assumes "0 \<le> echoDelay p"
  shows "fst (addEcho now a p) =
     map (\<lambda>j. Some (if int j < \<lfloor>echoDelay p * 44.1\<rfloor> then a ! j
                     else a ! j + a ! (j - nat \<lfloor>echoDelay p * 44.1\<rfloor>) * 0.5)) [0..<length a]"
proof -
  define d where "d = \<lfloor>echoDelay p * 44.1\<rfloor>"
  have d: "0 \<le> d" using assms by (simp add: d_def)
  have "fst (addEcho now a p) =
        fold (addEcho_body a d (1 / 2)) [0..<length a] (replicate (length a) (Some 0))"
    by (simp add: addEcho_def Let_def chunked_for_fold echoIntensity_def d_def)
  also have "\<dots> = map (\<lambda>j. Some (if int j < d then a ! j
                     else a ! j + a ! (j - nat d) * (1 / 2))) [0..<length a]"
    using addEcho_fold [OF d, of "length a" a "replicate (length a) (Some 0)" "1 / 2"] by simp
  finally show ?thesis by (simp add: d_def)
qed

text \<open>Under a negative delay the delayed tap leaves the array and the sample is NaN.\<close>

lemma addEcho_negative_delay:
  "fst (addEcho now [0] (setParameters (Some (- 1)) newProcessor)) = [None]"
  by (simp add: addEcho_def Let_def chunked_for_fold addEcho_body_def readF32_def
      setParameters_def newProcessor_def echoIntensity_def)

text \<open>
  Claim C7.  \<^verbatim>\<open>addEcho\<close> writes only the \<open>latency\<close> field of the metrics record:
  \<open>snr\<close>, \<open>erle\<close>, \<open>rea\<close> and \<open>convergence\<close> keep their previous values, all five
  fields are 0 on a fresh processor, and \<^verbatim>\<open>getMetrics\<close> after \<^verbatim>\<open>addEcho\<close> returns
  the prior \<open>snr\<close>.
\<close>

theorem addEcho_metrics_frame:
  "snr (metrics (snd (addEcho now audioData p))) = snr (metrics p) \<and>
   erle (metrics (snd (addEcho now audioData p))) = erle (metrics p) \<and>
   rea (metrics (snd (addEcho now audioData p))) = rea (metrics p) \<and>
   convergence (metrics (snd (addEcho now audioData p))) = convergence (metrics p) \<and>
   latency (metrics (snd (addEcho now audioData p))) = now 1 - now 0 \<and>
   getMetrics newProcessor = \<lparr>erle = 0, snr = 0, rea = 0, latency = 0, convergence = 0\<rparr> \<and>
   snr (getMetrics (snd (addEcho now audioData p))) = snr (getMetrics p)"
  by (simp add: addEcho_def Let_def getMetrics_def newProcessor_def initialMetrics_def)

section \<open>Emphasis pair\<close>

lemma applyPostProcessing_unique:
  assumes len: "length z = length y"
    and z0: "y \<noteq> [] \<Longrightarrow> z ! 0 = y ! 0"
    and zS: "\<And>i. 1 \<le> i \<Longrightarrow> i < length y \<Longrightarrow> z ! i = y ! i + 0.95 * z ! (i - 1)"
  shows "applyPostProcessing y = z"
proof (cases "y = []")
  case True
  then show ?thesis using len by (simp add: applyPostProcessing_def)
next
  case False
  define n where "n = length y"
  define out1 where "out1 = (replicate n (0::real))[0 := y ! 0]"
  have n: "1 \<le> n" using False by (cases y) (simp_all add: n_def)
  have len1: "length out1 = n" by (simp add: out1_def)
  have inv: "fold (\<lambda>i out. out[i := y ! i + 0.95 * out ! (i - 1)]) [1..<m] out1
             = take m z @ drop m out1" if "1 \<le> m" "m \<le> n" for m
    using that
  proof (induction m rule: dec_induct)
    case base
    have "take 1 z = [z ! 0]" using len n by (cases z) (simp_all add: n_def)
    moreover have "out1 = y ! 0 # drop 1 out1"
      using n by (cases n) (simp_all add: out1_def)
    ultimately show ?case using z0 [OF False] by simp
  next
    case (step m)
    have m: "m < n" using step.prems by simp
    have "fold (\<lambda>i out. out[i := y ! i + 0.95 * out ! (i - 1)]) [1..<Suc m] out1
          = (take m z @ drop m out1)[m := y ! m + 0.95 * (take m z @ drop m out1) ! (m - 1)]"
      using step by simp
    also have "(take m z @ drop m out1) ! (m - 1) = z ! (m - 1)"
      using step.hyps m len by (simp add: nth_append n_def)
    also have "y ! m + 0.95 * z ! (m - 1) = z ! m"
      using zS [of m] step.hyps m by (simp add: n_def)
    also have "(take m z @ drop m out1)[m := z ! m] = (take m z @ [z ! m]) @ drop (Suc m) out1"
      using m len len1 by (intro store_at_drop) (simp_all add: n_def)
    also have "take m z @ [z ! m] = take (Suc m) z"
      using m len by (simp add: take_Suc_conv_app_nth n_def)
    finally show ?case .
  qed
  have "applyPostProcessing y = fold (\<lambda>i out. out[i := y ! i + 0.95 * out ! (i - 1)]) [1..<n] out1"
    using False by (simp add: applyPostProcessing_def Let_def n_def out1_def)
  also have "\<dots> = take n z @ drop n out1" using inv [of n] n by simp
  also have "\<dots> = z" using len len1 by (simp add: n_def)
  finally show ?thesis .
qed

lemma applyPreProcessing_eq:
  "applyPreProcessing x =
     map (\<lambda>i. if i = 0 then x ! 0 else x ! i - 0.95 * x ! (i - 1)) [0..<length x]"
proof (cases "x = []")
  case True
  then show ?thesis by (simp add: applyPreProcessing_def)
next
  case False
  define n where "n = length x"
  define f where "f = (\<lambda>i. if i = 0 then x ! 0 else x ! i - 0.95 * x ! (i - 1))"
  define out1 where "out1 = (replicate n (0::real))[0 := x ! 0]"
  have n: "1 \<le> n" using False by (cases x) (simp_all add: n_def)
  have len1: "length out1 = n" by (simp add: out1_def)
  have inv: "fold (\<lambda>i out. out[i := x ! i - 0.95 * x ! (i - 1)]) [1..<m] out1
             = map f [0..<m] @ drop m out1" if "1 \<le> m" "m \<le> n" for m
    using that
  proof (induction m rule: dec_induct)
    case base
    have "out1 = x ! 0 # drop 1 out1"
      using n by (cases n) (simp_all add: out1_def)
    then show ?case by (simp add: f_def)
  next
    case (step m)
    have m: "m < n" using step.prems by simp
    have "fold (\<lambda>i out. out[i := x ! i - 0.95 * x ! (i - 1)]) [1..<Suc m] out1
          = (map f [0..<m] @ drop m out1)[m := f m]"
      using step by (simp add: f_def)
    also have "\<dots> = (map f [0..<m] @ [f m]) @ drop (Suc m) out1"
      using m len1 by (intro store_at_drop) simp_all
    finally show ?case by simp
  qed
  have "applyPreProcessing x = fold (\<lambda>i out. out[i := x ! i - 0.95 * x ! (i - 1)]) [1..<n] out1"
    using False by (simp add: applyPreProcessing_def Let_def n_def out1_def)
  also have "\<dots> = map f [0..<n] @ drop n out1" using inv [of n] n by simp
  finally show ?thesis using len1 by (simp add: n_def f_def)
qed

text \<open>
  Claim C4.  In exact arithmetic the de-emphasis filter
  (\<open>y[0] = x[0]\<close>, \<open>y[n] = x[n] + 0.95 * y[n-1]\<close>) applied to the result of the
  pre-emphasis filter (\<open>y[0] = x[0]\<close>, \<open>y[n] = x[n] - 0.95 * x[n-1]\<close>) returns the
  signal it started from, for every signal.
\<close>

theorem emphasis_round_trip: "applyPostProcessing (applyPreProcessing x) = x"
  by (rule applyPostProcessing_unique) (simp_all add: applyPreProcessing_eq)

section \<open>Kalman denoiser\<close>

lemma kalman_cov_step:
  "0 \<le> errorCovariance (fold (kalman_body input) [0..<n] (kalman_init input))"
proof (induction n)
  case 0
  then show ?case by (simp add: kalman_init_def)
next
  case (Suc n)
  define P where
    "P = errorCovariance (fold (kalman_body input) [0..<n] (kalman_init input)) + processNoise"
  have pos: "0 < P" using Suc by (simp add: P_def processNoise_def)
  have "errorCovariance (fold (kalman_body input) [0..<Suc n] (kalman_init input))
        = (1 - P / (P + kalmanGain)) * P"
    by (simp add: kalman_body_def Let_def P_def)
  also have "\<dots> = kalmanGain * P / (P + kalmanGain)"
    using pos by (simp add: kalmanGain_def field_simps)
  also have "0 \<le> \<dots>" using pos by (simp add: kalmanGain_def)
  finally show ?case .
qed

text \<open>
  Claim C6.  The Kalman filter runs its per-sample body once for each index of the input,
  in order, starting from \<open>errorCovariance = 0.1\<close>; the state reached after any number
  \<open>n\<close> of per-sample updates (the state before update \<open>n\<close> and after update \<open>n - 1\<close>) has
  \<open>errorCovariance \<ge> 0\<close>, for every input signal.
\<close>

theorem kalman_errorCovariance_nonneg:
  "kalman_run input = fold (kalman_body input) [0..<length input] (kalman_init input) \<and>
   errorCovariance (kalman_init input) = 0.1 \<and>
   0 \<le> errorCovariance (fold (kalman_body input) [0..<n] (kalman_init input))"
  by (simp add: kalman_run_def chunked_for_fold kalman_cov_step) (simp add: kalman_init_def)

section \<open>NLMS: the code's sample step is the specification's step\<close>


lemma fold_sum_list_upt:
  "fold (\<lambda>k (a::real). a + f k) [0..<n] a0 = a0 + (\<Sum>k\<leftarrow>[0..<n]. f k)"
  by (induction n) simp_all

lemma shift_in:
  "b \<noteq> [] \<Longrightarrow> (copyWithin_1_0 b)[0 := x] = x # butlast b"
  by (cases b) (simp_all add: copyWithin_1_0_def)

lemma filterPrediction_sum:
  "filterPrediction w b = (\<Sum>k\<leftarrow>[0..<filterLength]. w ! k * b ! k)"
  by (simp add: filterPrediction_def fold_sum_list_upt)

lemma powerSpectrum_sum:
  "powerSpectrum b = (\<Sum>k\<leftarrow>[0..<filterLength]. b ! k * b ! k)"
  by (simp add: powerSpectrum_def fold_sum_list_upt)

lemma fold_modify_upt:
  "m \<le> length w \<Longrightarrow>
   fold (\<lambda>k w. w[k := g k (w ! k)]) [0..<m] w = map (\<lambda>k. g k (w ! k)) [0..<m] @ drop m w"
proof (induction m)
  case 0
  then show ?case by simp
next
  case (Suc m)
  let ?pre = "map (\<lambda>k. g k (w ! k)) [0..<m]"
  have "fold (\<lambda>k w. w[k := g k (w ! k)]) [0..<Suc m] w
        = (?pre @ drop m w)[m := g m ((?pre @ drop m w) ! m)]"
    using Suc by simp
  also have "(?pre @ drop m w) ! m = w ! m"
    using Suc.prems by (simp add: nth_append)
  also have "(?pre @ drop m w)[m := g m (w ! m)] = (?pre @ [g m (w ! m)]) @ drop (Suc m) w"
    using Suc.prems by (intro store_at_drop) simp_all
  finally show ?case by simp
qed

lemma updateWeights_map:
  "length w = filterLength \<Longrightarrow>
   updateWeights s e b w = map (\<lambda>k. w ! k + s * e * b ! k) [0..<filterLength]"
  unfolding updateWeights_def
  using fold_modify_upt [of filterLength w "\<lambda>k v. v + s * e * b ! k"] by simp

lemma filterLength_pos: "0 < filterLength"
  by (simp add: filterLength_def)

lemma nlms_sample_spec:
  assumes "length (weights st) = filterLength" "length (buffer st) = filterLength"
  shows "nlms_sample pb i j st =
     \<lparr>weights = fst (snd (spec_step (pb ! j) (weights st, buffer st))),
      buffer = snd (snd (spec_step (pb ! j) (weights st, buffer st))),
      nlmsOutput = (nlmsOutput st)[i + j := fst (fst (spec_step (pb ! j) (weights st, buffer st)))],
      converged = (converged st \<or>
         \<bar>snd (fst (spec_step (pb ! j) (weights st, buffer st)))\<bar> < convergenceThreshold)\<rparr>"
proof -
  have ne: "buffer st \<noteq> []" using assms filterLength_pos by auto
  show ?thesis
    using assms
    by (simp add: nlms_sample_def spec_step_def Let_def shift_in [OF ne]
        filterPrediction_sum powerSpectrum_sum updateWeights_map)
qed

lemma spec_step_lengths:
  "length (snd wb) = filterLength \<Longrightarrow>
   length (fst (snd (spec_step x wb))) = filterLength \<and>
   length (snd (snd (spec_step x wb))) = filterLength"
  using filterLength_pos by (cases wb) (auto simp: spec_step_def Let_def)

lemma spec_recursion_append:
  "spec_recursion (as @ bs) wb = spec_recursion as wb @ spec_recursion bs (spec_state as wb)"
  by (induction as arbitrary: wb) simp_all

lemma spec_state_append:
  "spec_state (as @ bs) wb = spec_state bs (spec_state as wb)"
  by (induction as arbitrary: wb) simp_all

lemma spec_recursion_length [simp]: "length (spec_recursion xs wb) = length xs"
  by (induction xs arbitrary: wb) simp_all

lemma spec_state_lengths:
  "length (fst wb) = filterLength \<Longrightarrow> length (snd wb) = filterLength \<Longrightarrow>
   length (fst (spec_state xs wb)) = filterLength \<and> length (snd (spec_state xs wb)) = filterLength"
proof (induction xs arbitrary: wb)
  case Nil
  then show ?case by simp
next
  case (Cons x xs)
  then show ?case using spec_step_lengths [of wb x] by simp
qed


section \<open>NLMS: the chunked loops\<close>

lemma fillProcessingBuffer_nth:
  assumes "j < nlmsChunkSize"
  shows "fillProcessingBuffer input i (min (i + nlmsChunkSize) (length input)) ! j =
         (if i + j < length input then input ! (i + j) else 0)"
proof -
  define e where "e = min (i + nlmsChunkSize) (length input) - i"
  have e: "e \<le> nlmsChunkSize" by (simp add: e_def)
  have "fillProcessingBuffer input i (min (i + nlmsChunkSize) (length input)) =
        map (\<lambda>j. input ! (i + j)) [0..<e] @ drop e (replicate (nlmsChunkSize + filterLength) 0)"
    unfolding fillProcessingBuffer_def e_def [symmetric]
    using e by (intro fold_store_upt) simp
  moreover have "j < e \<longleftrightarrow> i + j < length input"
    using assms by (auto simp: e_def)
  ultimately show ?thesis
    using assms e by (auto simp: nth_append)
qed

lemma fillProcessingBuffer_samples:
  "map ((!) (fillProcessingBuffer input i (min (i + nlmsChunkSize) (length input))))
      [0..<nlmsChunkSize] = chunk_samples input i"
  by (simp add: chunk_samples_def fillProcessingBuffer_nth)

lemma nlms_inner:
  assumes "length (weights st) = filterLength" "length (buffer st) = filterLength"
  shows "weights (fold (nlms_sample pb i) [0..<m] st)
           = fst (spec_state (map ((!) pb) [0..<m]) (weights st, buffer st)) \<and>
         buffer (fold (nlms_sample pb i) [0..<m] st)
           = snd (spec_state (map ((!) pb) [0..<m]) (weights st, buffer st)) \<and>
         length (nlmsOutput (fold (nlms_sample pb i) [0..<m] st)) = length (nlmsOutput st) \<and>
         (\<forall>idx < length (nlmsOutput st).
            nlmsOutput (fold (nlms_sample pb i) [0..<m] st) ! idx =
              (if i \<le> idx \<and> idx < i + m
               then fst (spec_recursion (map ((!) pb) [0..<m]) (weights st, buffer st) ! (idx - i))
               else nlmsOutput st ! idx))"
proof (induction m)
  case 0
  then show ?case by simp
next
  case (Suc m)
  define wb where "wb = (weights st, buffer st)"
  define zs where "zs = map ((!) pb) [0..<m]"
  define stm where "stm = fold (nlms_sample pb i) [0..<m] st"
  define r where "r = spec_step (pb ! m) (spec_state zs wb)"
  have ih: "weights stm = fst (spec_state zs wb)" "buffer stm = snd (spec_state zs wb)"
    "length (nlmsOutput stm) = length (nlmsOutput st)"
    "\<And>idx. idx < length (nlmsOutput st) \<Longrightarrow> nlmsOutput stm ! idx =
        (if i \<le> idx \<and> idx < i + m then fst (spec_recursion zs wb ! (idx - i))
         else nlmsOutput st ! idx)"
    using Suc by (simp_all add: wb_def zs_def stm_def)
  have lens: "length (weights stm) = filterLength" "length (buffer stm) = filterLength"
    using spec_state_lengths [of wb zs] assms ih by (simp_all add: wb_def)
  have zsS: "map ((!) pb) [0..<Suc m] = zs @ [pb ! m]" by (simp add: zs_def)
  have step: "fold (nlms_sample pb i) [0..<Suc m] st = nlms_sample pb i m stm"
    by (simp add: stm_def)
  have wbm: "(weights stm, buffer stm) = spec_state zs wb" using ih by simp
  have sample: "nlms_sample pb i m stm =
     \<lparr>weights = fst (snd r), buffer = snd (snd r),
      nlmsOutput = (nlmsOutput stm)[i + m := fst (fst r)],
      converged = (converged stm \<or> \<bar>snd (fst r)\<bar> < convergenceThreshold)\<rparr>"
    unfolding r_def wbm [symmetric] by (rule nlms_sample_spec [OF lens])
  have st': "spec_state (zs @ [pb ! m]) wb = snd r"
    by (simp add: spec_state_append r_def)
  have rec': "spec_recursion (zs @ [pb ! m]) wb = spec_recursion zs wb @ [fst r]"
    by (simp add: spec_recursion_append r_def)
  have lz: "length zs = m" by (simp add: zs_def)
  have out: "nlmsOutput (nlms_sample pb i m stm) ! idx =
        (if i \<le> idx \<and> idx < i + Suc m then fst (spec_recursion (zs @ [pb ! m]) wb ! (idx - i))
         else nlmsOutput st ! idx)" if "idx < length (nlmsOutput st)" for idx
  proof (cases "idx = i + m")
    case True
    then show ?thesis using that ih(3) lz by (simp add: sample rec' nth_append)
  next
    case False
    then show ?thesis using that ih(4) [OF that] lz
      by (auto simp: sample rec' nth_append)
  qed
  show ?case
    unfolding step zsS wb_def [symmetric]
    using out ih(3) by (simp add: sample st')
qed

lemma nlms_chunks_frame:
  assumes "length (weights st) = filterLength" "length (buffer st) = filterLength"
  shows "length (weights (nlms_chunks input i st)) = filterLength \<and>
         length (buffer (nlms_chunks input i st)) = filterLength \<and>
         length (nlmsOutput (nlms_chunks input i st)) = length (nlmsOutput st) \<and>
         (\<forall>idx < i. idx < length (nlmsOutput st) \<longrightarrow>
            nlmsOutput (nlms_chunks input i st) ! idx = nlmsOutput st ! idx)"
  using assms
proof (induction input i st rule: nlms_chunks.induct)
  case (1 input i st)
  show ?case
  proof (cases "i < length input")
    case False
    then show ?thesis using 1 by (simp add: nlms_chunks.simps)
  next
    case True
    define pb where "pb = fillProcessingBuffer input i (min (i + nlmsChunkSize) (length input))"
    define st1 where "st1 = nlms_chunk input i st"
    have st1: "st1 = fold (nlms_sample pb i) [0..<nlmsChunkSize] st"
      by (simp add: st1_def nlms_chunk_def pb_def Let_def)
    note inner = nlms_inner [OF "1.prems", of pb i nlmsChunkSize, folded st1]
    have lens: "length (weights st1) = filterLength" "length (buffer st1) = filterLength"
      using inner spec_state_lengths [of "(weights st, buffer st)"] "1.prems" by simp_all
    have unfold: "nlms_chunks input i st = nlms_chunks input (i + (nlmsChunkSize - overlapSize)) st1"
      using True by (subst nlms_chunks.simps) (simp add: st1_def)
    note ih = "1.IH" [OF True, folded st1_def, OF lens]
    have "nlmsOutput (nlms_chunks input i st) ! idx = nlmsOutput st ! idx"
      if "idx < i" "idx < length (nlmsOutput st)" for idx
    proof -
      have "nlmsOutput (nlms_chunks input i st) ! idx = nlmsOutput st1 ! idx"
        using ih that inner unfolding unfold by simp
      also have "\<dots> = nlmsOutput st ! idx" using inner that by simp
      finally show ?thesis .
    qed
    then show ?thesis using ih inner unfolding unfold by simp
  qed
qed


lemma nlms_chunk_spec:
  assumes "length (weights st) = filterLength" "length (buffer st) = filterLength"
  shows "weights (nlms_chunk input i st)
           = fst (spec_state (chunk_samples input i) (weights st, buffer st))"
    and "buffer (nlms_chunk input i st)
           = snd (spec_state (chunk_samples input i) (weights st, buffer st))"
    and "length (nlmsOutput (nlms_chunk input i st)) = length (nlmsOutput st)"
    and "idx < length (nlmsOutput st) \<Longrightarrow>
         nlmsOutput (nlms_chunk input i st) ! idx =
           (if i \<le> idx \<and> idx < i + nlmsChunkSize
            then fst (spec_recursion (chunk_samples input i) (weights st, buffer st) ! (idx - i))
            else nlmsOutput st ! idx)"
  using nlms_inner [OF assms, of "fillProcessingBuffer input i (min (i + nlmsChunkSize) (length input))"
      i nlmsChunkSize]
  unfolding fillProcessingBuffer_samples
  by (simp_all add: nlms_chunk_def Let_def)



lemma nlms_init_lengths:
  "length (weights (nlms_init input)) = filterLength"
  "length (buffer (nlms_init input)) = filterLength"
  "length (nlmsOutput (nlms_init input)) = length input"
  "(weights (nlms_init input), buffer (nlms_init input)) = spec_init"
  by (simp_all add: nlms_init_def spec_init_def)

lemma nlms_run_length: "length (nlmsOutput (nlms_run input)) = length input"
  unfolding nlms_run_def
  using nlms_chunks_frame [of "nlms_init input" input 0] by (simp add: nlms_init_lengths)







section \<open>NLMS: steps on silence and on the first pulse\<close>


lemma spec_step_buffer: "snd (snd (spec_step x (w, b))) = x # butlast b"
  by (simp add: spec_step_def Let_def)

lemma spec_step_error: "snd (fst (spec_step x wb)) = x - fst (fst (spec_step x wb))"
  by (cases wb) (simp add: spec_step_def Let_def)

lemma sum_list_first_tap:
  "(\<Sum>k\<leftarrow>[0..<Suc n]. (g # replicate n 0) ! k * f k) = (g * f 0 :: real)"
proof -
  have "(\<Sum>k\<leftarrow>[0..<Suc n]. (g # replicate n 0) ! k * f k)
        = (\<Sum>k = 0..<Suc n. (g # replicate n 0) ! k * f k)"
    by (simp only: interv_sum_list_conv_sum_set_nat set_upt)
  also have "\<dots> = g * f 0 + (\<Sum>k = 0..<n. replicate n 0 ! k * f (Suc k))"
    by (simp only: sum.atLeast0_lessThan_Suc_shift) simp
  also have "(\<Sum>k = 0..<n. replicate n 0 ! k * f (Suc k)) = 0"
    by (rule sum.neutral) simp
  finally show ?thesis by simp
qed

lemma filterLength_Suc: "\<exists>n. filterLength = Suc n"
  using filterLength_pos gr0_implies_Suc by blast

lemma spec_step_prediction_first_tap:
  assumes "filterLength = Suc n"
  shows "fst (fst (spec_step x (g # replicate n 0, b))) = g * x"
  unfolding spec_step_def Let_def assms
  by (simp add: sum_list_first_tap del: upt_Suc)

lemma spec_step_weights_fixed:
  assumes "length w = filterLength" "snd (fst (spec_step x (w, b))) = 0"
  shows "fst (snd (spec_step x (w, b))) = w"
proof -
  have "fst (snd (spec_step x (w, b))) = map (\<lambda>k. w ! k) [0..<filterLength]"
    using assms(2) by (simp add: spec_step_def Let_def)
  then show ?thesis using assms(1) map_nth [of w] by simp
qed

lemma spec_step_zero_first_tap:
  assumes "filterLength = Suc n"
  shows "snd (spec_step 0 (g # replicate n 0, b)) = (g # replicate n 0, 0 # butlast b)"
proof -
  have "snd (fst (spec_step 0 (g # replicate n 0, b))) = 0"
    unfolding spec_step_error spec_step_prediction_first_tap [OF assms] by simp
  then have "fst (snd (spec_step 0 (g # replicate n 0, b))) = g # replicate n 0"
    using assms by (intro spec_step_weights_fixed) simp_all
  then show ?thesis by (simp add: prod_eq_iff spec_step_buffer)
qed


lemma spec_init_Suc:
  assumes "filterLength = Suc n"
  shows "spec_init = (0 # replicate n 0, 0 # replicate n 0)"
  unfolding spec_init_def assms by simp

lemma butlast_zeros: "butlast (x # replicate n x) = replicate n x"
  by (induction n) simp_all

lemma spec_step_zero_init: "spec_step 0 spec_init = ((0, 0), spec_init)"
proof -
  obtain n where n: "filterLength = Suc n" using filterLength_Suc by blast
  have "fst (fst (spec_step 0 spec_init)) = 0"
    unfolding spec_init_Suc [OF n] spec_step_prediction_first_tap [OF n] by simp
  moreover from this have "snd (fst (spec_step 0 spec_init)) = 0"
    unfolding spec_step_error by simp
  moreover have "snd (spec_step 0 spec_init) = spec_init"
    unfolding spec_init_Suc [OF n] spec_step_zero_first_tap [OF n] butlast_zeros ..
  ultimately show ?thesis by (simp add: prod_eq_iff)
qed

lemma spec_zeros_init:
  "spec_state (replicate m 0) spec_init = spec_init"
  "spec_recursion (replicate m 0) spec_init = replicate m (0, 0)"
  by (induction m) (simp_all add: spec_step_zero_init)



section \<open>NLMS: what the stage emits\<close>


lemma applyNLMSFilter_output: "fst (applyNLMSFilter now input m) = nlmsOutput (nlms_run input)"
  by (simp add: applyNLMSFilter_def Let_def)









section \<open>NLMS: the run, step by step\<close>



















lemma chunk_samples_length [simp]: "length (chunk_samples input i) = nlmsChunkSize"
  by (simp add: chunk_samples_def)

















section \<open>Degenerate inputs: the empty signal and silence\<close>


lemma calculateERLE_silence: "calculateERLE (replicate n 0) (replicate n 0) = 0"
proof -
  have "(\<Sum>j<n. replicate n (0::real) ! j * replicate n 0 ! j) = 0"
    by (rule sum.neutral) simp
  then show ?thesis by (simp add: calculateERLE_eq)
qed

lemma calculateSNR_empty: "calculateSNR [] = 0"
  by (simp add: calculateSNR_def snr_frames.simps)

lemma nlms_run_empty: "nlmsOutput (nlms_run []) = []"
  using nlms_run_length [of "[]"] by simp

lemma applyPreProcessing_empty: "applyPreProcessing [] = []"
  by (simp add: applyPreProcessing_def)

lemma applyPostProcessing_empty: "applyPostProcessing [] = []"
  by (simp add: applyPostProcessing_def)

lemma applyKalmanFilter_empty: "applyKalmanFilter [] = []"
  by (simp add: applyKalmanFilter_def kalman_run_def chunked_for.simps kalman_init_def)

text \<open>
  Claim C9.  On the empty signal each of \<^verbatim>\<open>addEcho\<close>, \<^verbatim>\<open>removeEcho\<close> and
  \<^verbatim>\<open>processNoiseAndEcho\<close> returns the empty signal (no operation of the engine can
  raise: the model has no error outcome), and the dB metrics computed by the call are the
  neutral value 0: \<open>erle\<close> and \<open>rea\<close> after \<^verbatim>\<open>removeEcho\<close>; \<open>snr\<close>, \<open>erle\<close> and
  \<open>rea\<close> after \<^verbatim>\<open>processNoiseAndEcho\<close>.
\<close>

theorem empty_input_neutral:
  "fst (addEcho now [] p) = [] \<and>
   fst (removeEcho now [] p) = [] \<and>
   erle (metrics (snd (removeEcho now [] p))) = 0 \<and>
   rea (metrics (snd (removeEcho now [] p))) = 0 \<and>
   fst (processNoiseAndEcho now [] p) = [] \<and>
   snr (metrics (snd (processNoiseAndEcho now [] p))) = 0 \<and>
   erle (metrics (snd (processNoiseAndEcho now [] p))) = 0 \<and>
   rea (metrics (snd (processNoiseAndEcho now [] p))) = 0"
  using calculateERLE_silence [of 0]
  by (simp add: addEcho_def removeEcho_def processNoiseAndEcho_def Let_def split_beta
      chunked_for.simps applyPreProcessing_empty applyPostProcessing_empty
      applyKalmanFilter_empty applyNLMSFilter_output nlms_run_empty calculateSNR_empty
      calculateREA_twice_ERLE)

lemma applyPreProcessing_silence: "applyPreProcessing (replicate n 0) = replicate n 0"
  unfolding applyPreProcessing_eq by (intro nth_equalityI) simp_all

lemma applyPostProcessing_silence: "applyPostProcessing (replicate n 0) = replicate n 0"
  by (rule applyPostProcessing_unique) simp_all

lemma replicate_update_same: "(replicate n x)[j := x] = replicate n x"
  by (cases "j < n") (auto intro!: nth_equalityI simp: nth_list_update)

lemma kalman_silence:
  "m \<le> n \<Longrightarrow>
   estimate (fold (kalman_body (replicate n 0)) [0..<m] (kalman_init (replicate n 0))) = 0 \<and>
   kalmanOutput (fold (kalman_body (replicate n 0)) [0..<m] (kalman_init (replicate n 0)))
     = replicate n 0"
proof (induction m)
  case 0
  then show ?case by (simp add: kalman_init_def)
next
  case (Suc m)
  then show ?case by (simp add: kalman_body_def Let_def replicate_update_same)
qed

lemma applyKalmanFilter_silence: "applyKalmanFilter (replicate n 0) = replicate n 0"
  using kalman_silence [of n n]
  by (simp add: applyKalmanFilter_def kalman_run_def chunked_for_fold)

lemma chunk_samples_silence: "chunk_samples (replicate n 0) i = replicate nlmsChunkSize 0"
  by (intro nth_equalityI) (simp_all add: chunk_samples_def)

lemma nlms_chunk_silence:
  assumes "(weights st, buffer st) = spec_init" "nlmsOutput st = replicate n 0"
  shows "(weights (nlms_chunk (replicate n 0) i st), buffer (nlms_chunk (replicate n 0) i st))
           = spec_init \<and>
         nlmsOutput (nlms_chunk (replicate n 0) i st) = replicate n 0"
proof -
  have lens: "length (weights st) = filterLength" "length (buffer st) = filterLength"
    using assms(1) by (auto simp: spec_init_def)
  note c = nlms_chunk_spec [where st = st and input = "replicate n 0" and i = i, OF lens,
      unfolded chunk_samples_silence assms(1) spec_zeros_init]
  have "nlmsOutput (nlms_chunk (replicate n 0) i st) = replicate n 0"
    using c(3,4) assms(2) by (intro nth_equalityI) auto
  then show ?thesis using c(1,2) by (simp add: prod_eq_iff)
qed

lemma nlms_chunks_silence:
  assumes "(weights st, buffer st) = spec_init" "nlmsOutput st = replicate n 0"
  shows "nlmsOutput (nlms_chunks (replicate n 0) i st) = replicate n 0"
  using assms
proof (induction "replicate n (0::real)" i st rule: nlms_chunks.induct)
  case (1 i st)
  show ?case
  proof (cases "i < length (replicate n (0::real))")
    case True
    then show ?thesis
      using "1.hyps" [OF True] nlms_chunk_silence [OF "1.prems", of i]
      by (subst nlms_chunks.simps) simp
  next
    case False
    then show ?thesis using "1.prems" by (subst nlms_chunks.simps) simp
  qed
qed

lemma nlms_run_silence: "nlmsOutput (nlms_run (replicate n 0)) = replicate n 0"
  unfolding nlms_run_def
  by (rule nlms_chunks_silence) (simp_all add: nlms_init_def spec_init_def)

lemma addEcho_silence:
  assumes "0 \<le> echoDelay p"
  shows "fst (addEcho now (replicate n 0) p) = replicate n (Some 0)"
  unfolding addEcho_output [OF assms]
  by (intro nth_equalityI) simp_all

text \<open>
  Claim C5.  On an all-zero signal of any length \<open>n\<close>, \<^verbatim>\<open>addEcho\<close> (under a delay
  that is not negative), \<^verbatim>\<open>removeEcho\<close> and \<^verbatim>\<open>processNoiseAndEcho\<close> each return the
  all-zero signal of length \<open>n\<close>, and after the latter two \<open>erle = rea = 0\<close>.
\<close>

theorem silence_invariance:
  assumes "0 \<le> echoDelay p"
  shows "fst (addEcho now (replicate n 0) p) = replicate n (Some 0) \<and>
   fst (removeEcho now (replicate n 0) p) = replicate n 0 \<and>
   erle (metrics (snd (removeEcho now (replicate n 0) p))) = 0 \<and>
   rea (metrics (snd (removeEcho now (replicate n 0) p))) = 0 \<and>
   fst (processNoiseAndEcho now (replicate n 0) p) = replicate n 0 \<and>
   erle (metrics (snd (processNoiseAndEcho now (replicate n 0) p))) = 0 \<and>
   rea (metrics (snd (processNoiseAndEcho now (replicate n 0) p))) = 0"
  using addEcho_silence [OF assms]
  by (simp add: removeEcho_def processNoiseAndEcho_def Let_def split_beta
      applyPreProcessing_silence applyPostProcessing_silence applyKalmanFilter_silence
      applyNLMSFilter_output nlms_run_silence calculateERLE_silence calculateREA_twice_ERLE)


theorem silence_invariance_witness:
  "0 \<le> echoDelay newProcessor \<and>
   fst (addEcho real (replicate 3 0) newProcessor) = replicate 3 (Some 0) \<and>
   fst (removeEcho real (replicate 3 0) newProcessor) = replicate 3 0 \<and>
   erle (metrics (snd (removeEcho real (replicate 3 0) newProcessor))) = 0 \<and>
   rea (metrics (snd (removeEcho real (replicate 3 0) newProcessor))) = 0 \<and>
   fst (processNoiseAndEcho real (replicate 3 0) newProcessor) = replicate 3 0"
proof -
  have h: "0 \<le> echoDelay newProcessor" by (simp add: newProcessor_def)
  show ?thesis using h silence_invariance [OF h, of real 3] by simp
qed

section \<open>NLMS: the step size is well defined and the weights stay bounded\<close>

lemma powerSpectrum_nonneg: "0 \<le> powerSpectrum b"
  unfolding powerSpectrum_sum by (rule sum_list_nonneg) auto









section \<open>IEEE arithmetic: exact cases and evaluation\<close>

lemma pow2_nonpos: "e \<le> 0 \<Longrightarrow> pow2 e = 1 / 2 ^ nat (- e)"
  by (cases "e = 0") (simp_all add: pow2_def)

lemma round_even_int [simp]: "round_even (of_int N) = N"
  by (simp add: round_even_def)

lemma rnd64_int:
  assumes "\<bar>z\<bar> < 2 ^ 53"
  shows "rnd64 (of_int z) = Fin (of_int z)"
proof (cases "z = 0")
  case True
  then show ?thesis by (simp add: rnd64_def rnd_def)
next
  case False
  define a where "a = \<bar>z\<bar>"
  define b where "b = bitlen a"
  have a: "1 \<le> a" "a < 2 ^ 53" using False assms by (simp_all add: a_def)
  have bb: "2 ^ nat (b - 1) \<le> a" "a < 2 ^ nat b"
    using bitlen_bounds [of a] a by (simp_all add: b_def)
  have b1: "1 \<le> b"
  proof (rule ccontr)
    assume "\<not> 1 \<le> b"
    then have "nat b = 0" by simp
    then show False using bb(2) a(1) by simp
  qed
  have b53: "b \<le> 53"
  proof (rule ccontr)
    assume "\<not> b \<le> 53"
    then have "53 \<le> nat (b - 1)" by simp
    then have "(2::int) ^ 53 \<le> 2 ^ nat (b - 1)" by (intro power_increasing) simp_all
    then show False using bb(1) a(2) by linarith
  qed
  have be: "binexp \<bar>real_of_int z\<bar> = b - 1"
  proof -
    have "\<bar>real_of_int z\<bar> = of_int a" by (simp add: a_def)
    then show ?thesis using a(1) by (simp add: binexp_def b_def)
  qed
  have q: "pow2 (max (binexp \<bar>real_of_int z\<bar> - (int 53 - 1)) (- 1074)) = 1 / 2 ^ nat (53 - b)"
    using b1 b53 unfolding be by (subst pow2_nonpos) (simp_all add: max_def)
  have div: "real_of_int z / (1 / 2 ^ nat (53 - b)) = of_int (z * 2 ^ nat (53 - b))" by simp
  have small: "\<not> pow2 (1023 + 1) \<le> \<bar>real_of_int z\<bar>"
  proof -
    have "\<bar>real_of_int z\<bar> < 2 ^ 53" using assms by (metis of_int_abs of_int_less_numeral_power_cancel_iff)
    also have "(2::real) ^ 53 \<le> 2 ^ 1024" by (intro power_increasing) simp_all
    finally show ?thesis by (simp add: pow2_def)
  qed
  show ?thesis
    unfolding rnd64_def rnd_def Let_def q div round_even_int
    using False small by simp
qed

lemma rnd64_nat:
  assumes "k < 2 ^ 53"
  shows "rnd64 (real k) = Fin (real k)"
proof -
  have "int k < 2 ^ 53" using assms by (metis of_nat_less_numeral_power_cancel_iff)
  then have "\<bar>int k\<bar> < 2 ^ 53" by simp
  then have "rnd64 (of_int (int k)) = Fin (of_int (int k))" by (rule rnd64_int)
  then show ?thesis by simp
qed

lemma fsub_index:
  assumes "D \<le> i" "i - D < 2 ^ 53"
  shows "fsub (Fin (real i)) (Fin (real D)) = Fin (real (i - D))"
proof -
  have "fsub (Fin (real i)) (Fin (real D)) = rnd64 (real i - real D)"
    by (simp add: fsub_def fneg_def fadd_def)
  also have "real i - real D = real (i - D)" using assms(1) by (simp add: of_nat_diff)
  also have "rnd64 (real (i - D)) = Fin (real (i - D))" using assms(2) by (rule rnd64_nat)
  finally show ?thesis .
qed

lemma readF32_ieee_nat: "k < length a \<Longrightarrow> readF32_ieee a (Fin (real k)) = a ! k"
  by (simp add: readF32_ieee_def)

lemma fle_nat: "fle (Fin (real D)) (Fin (real j)) \<longleftrightarrow> D \<le> j"
  by (auto simp: fle_def flt_def)

lemma addEcho_body_ieee_store:
  assumes "j < length out" "length out = length a" "length a < 2 ^ 53"
  shows "addEcho_body_ieee a (Fin (real D)) c j out =
     out[j := (if j < D then a ! j else storeF32 (fadd (a ! j) (fmul (a ! (j - D)) c)))]"
proof (cases "j < D")
  case True
  then have "\<not> fle (Fin (real D)) (Fin (real j))" by (simp add: fle_nat)
  then show ?thesis using True by (simp add: addEcho_body_ieee_def Let_def)
next
  case False
  then have le: "D \<le> j" by simp
  have k: "j - D < length a" using assms by simp
  then have "j - D < 2 ^ 53" using assms(3) by (rule less_trans)
  then have "fsub (Fin (real j)) (Fin (real D)) = Fin (real (j - D))"
    using le by (intro fsub_index)
  then have r: "readF32_ieee a (fsub (Fin (real j)) (Fin (real D))) = a ! (j - D)"
    using k by (simp only: readF32_ieee_nat)
  have f: "fle (Fin (real D)) (Fin (real j))" using le by (simp add: fle_nat)
  show ?thesis
    unfolding addEcho_body_ieee_def Let_def r using f False assms(1) by simp
qed

lemma addEcho_ieee_fold:
  assumes "length a < 2 ^ 53"
  shows "m \<le> length a \<Longrightarrow> length out = length a \<Longrightarrow>
     fold (addEcho_body_ieee a (Fin (real D)) c) [0..<m] out =
     map (\<lambda>j. if j < D then a ! j else storeF32 (fadd (a ! j) (fmul (a ! (j - D)) c))) [0..<m]
       @ drop m out"
proof (induction m)
  case 0
  then show ?case by simp
next
  case (Suc m)
  let ?f = "\<lambda>j. if j < D then a ! j else storeF32 (fadd (a ! j) (fmul (a ! (j - D)) c))"
  have len: "length (map ?f [0..<m] @ drop m out) = length a" using Suc.prems by simp
  have "fold (addEcho_body_ieee a (Fin (real D)) c) [0..<Suc m] out
        = addEcho_body_ieee a (Fin (real D)) c m (map ?f [0..<m] @ drop m out)"
    using Suc by simp
  also have "\<dots> = (map ?f [0..<m] @ drop m out)[m := ?f m]"
    using Suc.prems assms len by (subst addEcho_body_ieee_store) simp_all
  also have "\<dots> = (map ?f [0..<m] @ [?f m]) @ drop (Suc m) out"
    using Suc.prems by (intro store_at_drop) simp_all
  finally show ?case by simp
qed

section \<open>Echo synthesizer under IEEE arithmetic\<close>

lemmas ieee_eval = fdiv_def fmul_def fadd_def fsub_def fneg_def ffloor_def storeF32_def
  rnd64_def rnd32_def rnd_def binexp_def compute_bitlen pow2_def round_even_def Let_def

lemma intensity_ieee: "fdiv (Fin echoIntensity) (Fin 100) = Fin (1 / 2)"
  by (simp add: echoIntensity_def ieee_eval)

lemma addEcho_ieee_output:
  assumes "delayInSamples_ieee d = Fin (real D)" "length a < 2 ^ 53"
  shows "addEcho_ieee d a =
     map (\<lambda>j. if j < D then a ! j
               else storeF32 (fadd (a ! j) (fmul (a ! (j - D)) (Fin (1 / 2))))) [0..<length a]"
  unfolding addEcho_ieee_def Let_def assms(1) intensity_ieee
  using addEcho_ieee_fold [OF assms(2), of "length a" "replicate (length a) (Fin 0)" D "Fin (1 / 2)"]
  by (simp add: chunked_for_fold)

lemma addEcho_ieee_nth:
  assumes "delayInSamples_ieee d = Fin (real D)" "length a < 2 ^ 53" "i < length a"
  shows "addEcho_ieee d a ! i =
     (if i < D then a ! i else storeF32 (fadd (a ! i) (fmul (a ! (i - D)) (Fin (1 / 2)))))"
  unfolding addEcho_ieee_output [OF assms(1,2)] using assms(3) by simp

lemma delay_100: "delayInSamples_ieee 100 = Fin (real 4410)"
  by (simp add: delayInSamples_ieee_def ieee_eval)

lemma delay_fraction:
  "delayInSamples_ieee (2846663029772167 / 281474976710656) = Fin 446"
  "\<lfloor>(2846663029772167 / 281474976710656 :: real) * 44.1\<rfloor> = 445"
  by (simp_all add: delayInSamples_ieee_def ieee_eval)

lemma rounded_sum:
  "storeF32 (fadd (Fin 1) (fmul (Fin (1 / 2 ^ 24)) (Fin (1 / 2)))) = Fin 1"
  by (simp add: ieee_eval)

lemma overflowing_sum:
  "storeF32 (fadd (Fin (2 ^ 127)) (fmul (Fin (2 ^ 128 - 2 ^ 104)) (Fin (1 / 2)))) = PInf"
  by (simp add: ieee_eval)

lemma short_length: "(4411::nat) < 2 ^ 53"
  by simp

lemma addEcho_ieee_last:
  assumes "length zs = 4409"
  shows "addEcho_ieee 100 (u # zs @ [v]) ! 4410 = storeF32 (fadd v (fmul u (Fin (1 / 2))))"
proof -
  define a where "a = u # zs @ [v]"
  have l: "length a < 2 ^ 53" and i: "4410 < length a" using assms by (simp_all add: a_def)
  have n: "a ! 4410 = v" "a ! 0 = u" using assms by (simp_all add: a_def nth_append)
  have "addEcho_ieee 100 a ! 4410
        = storeF32 (fadd (a ! 4410) (fmul (a ! 0) (Fin (1 / 2))))"
    using addEcho_ieee_nth [OF delay_100 l i] by simp
  then have "addEcho_ieee 100 a ! 4410 = storeF32 (fadd v (fmul u (Fin (1 / 2))))"
    by (simp only: n)
  then show ?thesis unfolding a_def .
qed

text \<open>
  Claim C3 fails.  With the default delay of 100 ms, on the signal whose sample 0 is
  \<open>2\<^sup>-\<^sup>2\<^sup>4\<close> and whose sample 4410 is 1, the claim gives \<open>1 + 2\<^sup>-\<^sup>2\<^sup>5\<close> at index 4410;
  that sum is not a float32 value and the store rounds it to 1.  With samples
  \<open>2\<^sup>1\<^sup>2\<^sup>8 - 2\<^sup>1\<^sup>0\<^sup>4\<close> (the largest float32) and \<open>2\<^sup>1\<^sup>2\<^sup>7\<close> the store overflows to
  +Infinity.  For the delay \<open>10.113378684807255\<close> (the double
  \<open>2846663029772167 / 2\<^sup>4\<^sup>8\<close>) the double product with 44.1 floors to 446, the exact
  product to 445.
\<close>

theorem addEcho_float32_counterexample:
  "addEcho_ieee 100 (Fin (1 / 2 ^ 24) # replicate 4409 (Fin 0) @ [Fin 1]) ! 4410 = Fin 1 \<and>
   (1::real) + 1 / 2 ^ 24 * 0.5 \<noteq> 1 \<and>
   addEcho_ieee 100 (Fin (2 ^ 128 - 2 ^ 104) # replicate 4409 (Fin 0) @ [Fin (2 ^ 127)]) ! 4410
     = PInf \<and>
   delayInSamples_ieee (2846663029772167 / 281474976710656) = Fin 446 \<and>
   \<lfloor>(2846663029772167 / 281474976710656 :: real) * 44.1\<rfloor> = 445"
proof -
  have a: "addEcho_ieee 100 (Fin (1 / 2 ^ 24) # replicate 4409 (Fin 0) @ [Fin 1]) ! 4410 = Fin 1"
    unfolding addEcho_ieee_last [OF length_replicate] by (rule rounded_sum)
  have b: "addEcho_ieee 100 (Fin (2 ^ 128 - 2 ^ 104) # replicate 4409 (Fin 0) @ [Fin (2 ^ 127)]) ! 4410
     = PInf"
    unfolding addEcho_ieee_last [OF length_replicate] by (rule overflowing_sum)
  have c: "(1::real) + 1 / 2 ^ 24 * 0.5 \<noteq> 1" by simp
  show ?thesis using a b c delay_fraction by blast
qed

text \<open>
  Claim C3 as amended.  Let \<open>D\<close> be \<open>delaySamples\<close>, the floor of the double product of
  the configured delay with 44.1, when it is a non-negative integer, and let the signal
  have fewer than \<open>2\<^sup>5\<^sup>3\<close> samples.  \<^verbatim>\<open>addEcho\<close> returns a signal of the same length;
  sample \<open>i\<close> is \<open>input[i]\<close> for \<open>i < D\<close>, and for \<open>i \<ge> D\<close> it is
  \<open>input[i] + input[i - D] * 0.5\<close> evaluated in double precision and rounded to float32
  by the store.  For 100 ms, \<open>D = 4410\<close>.  In exact arithmetic, with the exact floor and a
  delay that is not negative, the equalities hold as the claim states them.
\<close>

theorem addEcho_ieee_delayed_mix:
  assumes "delayInSamples_ieee d = Fin (real D)" "length a < 2 ^ 53"
  shows "length (addEcho_ieee d a) = length a \<and>
     (\<forall>i < length a.
        addEcho_ieee d a ! i =
          (if i < D then a ! i
           else storeF32 (fadd (a ! i) (fmul (a ! (i - D)) (Fin (1 / 2)))))) \<and>
     delayInSamples_ieee 100 = Fin 4410 \<and>
     (0 \<le> echoDelay p \<longrightarrow>
        fst (addEcho now r p) =
          map (\<lambda>j. Some (if int j < \<lfloor>echoDelay p * 44.1\<rfloor> then r ! j
                          else r ! j + r ! (j - nat \<lfloor>echoDelay p * 44.1\<rfloor>) * 0.5))
            [0..<length r])"
  using addEcho_ieee_nth [OF assms] delay_100 addEcho_output [of p now r]
  by (simp add: addEcho_ieee_output [OF assms])

theorem addEcho_ieee_delayed_mix_witness:
  "delayInSamples_ieee 100 = Fin (real 4410) \<and>
   length (Fin (1 / 2 ^ 24) # replicate 4409 (Fin 0) @ [Fin 1]) < 2 ^ 53 \<and>
   (4410::nat) < length (Fin (1 / 2 ^ 24) # replicate 4409 (Fin 0) @ [Fin 1]) \<and>
   addEcho_ieee 100 (Fin (1 / 2 ^ 24) # replicate 4409 (Fin 0) @ [Fin 1]) ! 0 = Fin (1 / 2 ^ 24) \<and>
   addEcho_ieee 100 (Fin (1 / 2 ^ 24) # replicate 4409 (Fin 0) @ [Fin 1]) ! 4410 = Fin 1 \<and>
   0 \<le> echoDelay newProcessor \<and>
   fst (addEcho real [1, 2] newProcessor) = [Some 1, Some 2]"
proof -
  have l: "length (Fin (1 / 2 ^ 24) # replicate 4409 (Fin 0) @ [Fin 1]) < 2 ^ 53" by simp
  note t = addEcho_ieee_delayed_mix [OF delay_100 l, of newProcessor real "[1, 2]"]
  have h: "0 \<le> echoDelay newProcessor" by (simp add: newProcessor_def)
  have d: "\<lfloor>echoDelay newProcessor * 44.1\<rfloor> = 4410" by (simp add: newProcessor_def)
  have e: "fst (addEcho real [1, 2] newProcessor) = [Some 1, Some 2]"
    using t h unfolding d by (simp add: upt_rec)
  have "addEcho_ieee 100 (Fin (1 / 2 ^ 24) # replicate 4409 (Fin 0) @ [Fin 1]) ! 0 = Fin (1 / 2 ^ 24)"
    using t [THEN conjunct2, THEN conjunct1, rule_format, of 0] by simp
  moreover have "addEcho_ieee 100 (Fin (1 / 2 ^ 24) # replicate 4409 (Fin 0) @ [Fin 1]) ! 4410 =
     storeF32 (fadd (Fin 1) (fmul (Fin (1 / 2 ^ 24)) (Fin (1 / 2))))"
    using t [THEN conjunct2, THEN conjunct1, rule_format, of 4410] by (simp add: nth_append)
  ultimately show ?thesis using delay_100 h e unfolding rounded_sum by simp
qed


section \<open>NLMS under IEEE arithmetic: the run and non-finite samples\<close>








lemma fadd_NaN [simp]: "fadd NaN v = NaN" "fadd v NaN = NaN"
  by (simp_all add: fadd_def split: ieee.splits)

lemma fmul_NaN [simp]: "fmul NaN v = NaN" "fmul v NaN = NaN"
  by (simp_all add: fmul_def split: ieee.splits)

lemma fsub_NaN [simp]: "fsub NaN v = NaN" "fsub v NaN = NaN"
  by (simp_all add: fsub_def fneg_def split: ieee.splits)

lemma storeF32_NaN [simp]: "storeF32 NaN = NaN"
  by (simp add: storeF32_def)











section \<open>NLMS under IEEE arithmetic: the step denominator\<close>



















end
